theory Spec2Isabelle
  imports Complex_Main
begin

section \<open>Python values and built-ins used by the notebook\<close>

text \<open>
  Exceptions are values. \<open>ValueError\<close> carries its message, \<open>KeyError\<close> the key that was
  missing from the dictionary.
\<close>

datatype py_error = ValueError string | KeyError string | IndexError | ZeroDivisionError

text \<open>
  \<^verbatim>\<open>str.split()\<close> without arguments splits at runs of whitespace and drops empty pieces.
  Strings are modelled as lists of 8-bit characters read as ASCII text; the whitespace
  characters of that range are tab, line feed, vertical tab, form feed, carriage return,
  the four separators \<open>0x1C..0x1F\<close> and the space.
\<close>

definition is_space :: "char \<Rightarrow> bool" where
  "is_space c = (let n = (of_char c :: nat) in (9 \<le> n \<and> n \<le> 13) \<or> (28 \<le> n \<and> n \<le> 32))"

fun split_from :: "string \<Rightarrow> string \<Rightarrow> string list" where
  "split_from cur [] = (if cur = [] then [] else [cur])"
| "split_from cur (c # cs) =
     (if is_space c then (if cur = [] then split_from [] cs else cur # split_from [] cs)
      else split_from (cur @ [c]) cs)"

definition py_split :: "string \<Rightarrow> string list" where
  "py_split s = split_from [] s"

text \<open>\<^verbatim>\<open>str.lower()\<close> on ASCII text: the letters A to Z move to a to z.\<close>

definition lower_char :: "char \<Rightarrow> char" where
  "lower_char c = (let n = (of_char c :: nat) in if 65 \<le> n \<and> n \<le> 90 then char_of (n + 32) else c)"

definition py_lower :: "string \<Rightarrow> string" where
  "py_lower s = map lower_char s"

text \<open>\<^verbatim>\<open>str(n)\<close> for a length: the decimal digits of a natural number.\<close>

definition digit_char :: "nat \<Rightarrow> char" where
  "digit_char d = char_of (48 + d)"

fun str_nat :: "nat \<Rightarrow> string" where
  "str_nat n = (if n < 10 then [digit_char n] else str_nat (n div 10) @ [digit_char (n mod 10)])"

declare str_nat.simps [simp del]

section \<open>The label aligner: \<open>lemmatize_tokenize_and_align_labels\<close>\<close>

text \<open>
  The lemmatizer and the pretrained tokenizer are external services. The aligner calls
  \<^verbatim>\<open>lemmatizer.lemmatize\<close>, \<^verbatim>\<open>tokenizer.tokenize\<close>, \<^verbatim>\<open>tokenizer.convert_tokens_to_ids\<close>
  (which maps the vocabulary lookup over the token list) and reads the three special
  token ids.
\<close>

record services =
  lemmatize :: "string \<Rightarrow> string"
  tokenize :: "string \<Rightarrow> string list"
  token_id :: "string \<Rightarrow> int"
  cls_token_id :: int
  sep_token_id :: int
  pad_token_id :: int

definition convert_tokens_to_ids :: "services \<Rightarrow> string list \<Rightarrow> int list" where
  "convert_tokens_to_ids sv toks = map (token_id sv) toks"

definition label_to_int :: "string \<rightharpoonup> int" where
  "label_to_int = [''B'' \<mapsto> 0, ''I'' \<mapsto> 1, ''O'' \<mapsto> 2]"

text \<open>\<^verbatim>\<open>label_to_int[label]\<close>: a missing key raises \<open>KeyError\<close>.\<close>

definition label_id :: "string \<Rightarrow> py_error + int" where
  "label_id l = (case label_to_int l of None \<Rightarrow> Inl (KeyError l) | Some v \<Rightarrow> Inr v)"

definition max_length :: nat where
  "max_length = 512"

text \<open>
  One pass of the inner \<^verbatim>\<open>for word, label in zip(words, label_list)\<close> loop over the state
  \<open>(input_ids, aligned_labels)\<close>. \<open>Next\<close> goes on with the following pair (the end of the
  body, or \<^verbatim>\<open>continue\<close>), \<open>Break\<close> leaves the loop.
\<close>

datatype 'a flow = Next 'a | Break 'a

type_synonym acc = "int list \<times> int list"

definition align_word :: "services \<Rightarrow> acc \<Rightarrow> string \<times> string \<Rightarrow> py_error + acc flow" where
  "align_word sv st wl =
     (let input_ids = fst st; aligned_labels = snd st; word = fst wl; label = snd wl;
          lemmatized_word = lemmatize sv word;
          word_tokens = tokenize sv lemmatized_word
      in if word_tokens = [] then Inr (Next (input_ids, aligned_labels))
         else
           let word_ids = convert_tokens_to_ids sv word_tokens;
               input_ids = input_ids @ word_ids
           in (case label_id label of
                 Inl e \<Rightarrow> Inl e
               | Inr l \<Rightarrow>
                   let aligned_labels = aligned_labels @ [l]
                   in if length input_ids > max_length - 2
                      then Inr (Break (input_ids, aligned_labels))
                      else if length word_tokens > 1
                      then
                        let remaining_label = (if label = ''B'' then ''I'' else label)
                        in (case label_id remaining_label of
                              Inl e \<Rightarrow> Inl e
                            | Inr r \<Rightarrow>
                                Inr (Next (input_ids,
                                  aligned_labels @ replicate (length word_tokens - 1) r)))
                      else Inr (Next (input_ids, aligned_labels))))"

fun align_words :: "services \<Rightarrow> acc \<Rightarrow> (string \<times> string) list \<Rightarrow> py_error + acc" where
  "align_words sv st [] = Inr st"
| "align_words sv st (wl # rest) =
     (case align_word sv st wl of
        Inl e \<Rightarrow> Inl e
      | Inr (Next st') \<Rightarrow> align_words sv st' rest
      | Inr (Break st') \<Rightarrow> Inr st')"

record example =
  input_ids :: "int list"
  attention_mask :: "int list"
  labels :: "int list"

text \<open>Truncation, the two markers and the padding, after the loop.\<close>

definition finalize :: "services \<Rightarrow> acc \<Rightarrow> example" where
  "finalize sv st =
     (case st of (ids, aligned_labels) \<Rightarrow>
        let ids' = (if length ids > max_length - 2 then take (max_length - 2) ids else ids);
            aligned_labels' = (if length ids > max_length - 2
                               then take (max_length - 2) aligned_labels else aligned_labels);
            final_input_ids = [cls_token_id sv] @ ids' @ [sep_token_id sv];
            final_labels = [- 100] @ aligned_labels' @ [- 100];
            mask = replicate (length final_input_ids) 1;
            padding_length = int max_length - int (length final_input_ids)
        in if padding_length > 0
           then \<lparr> input_ids = final_input_ids @ replicate (nat padding_length) (pad_token_id sv),
                  attention_mask = mask @ replicate (nat padding_length) 0,
                  labels = final_labels @ replicate (nat padding_length) (- 100) \<rparr>
           else \<lparr> input_ids = final_input_ids, attention_mask = mask, labels = final_labels \<rparr>)"

definition mismatch_message :: "nat \<Rightarrow> nat \<Rightarrow> string" where
  "mismatch_message n_labels n_words =
     ''Mismatch: '' @ str_nat n_labels @ '' labels but '' @ str_nat n_words @ '' words''"

text \<open>The body of the loop over the records of one parsed file, for the record \<open>(label_str, sentence)\<close>.\<close>

definition align_lists :: "services \<Rightarrow> string list \<Rightarrow> string list \<Rightarrow> py_error + example" where
  "align_lists sv label_list words =
     (if length label_list \<noteq> length words
      then Inl (ValueError (mismatch_message (length label_list) (length words)))
      else (case align_words sv ([], []) (zip words label_list) of
              Inl e \<Rightarrow> Inl e
            | Inr st \<Rightarrow> Inr (finalize sv st)))"

definition align_record :: "services \<Rightarrow> string \<times> string \<Rightarrow> py_error + example" where
  "align_record sv r =
     (case r of (label_str, sentence) \<Rightarrow>
        align_lists sv (py_split label_str) (py_split (py_lower sentence)))"

text \<open>
  The loop \<^verbatim>\<open>for i, (label_str, sentence) in enumerate(parsed_file)\<close>: \<open>i\<close> is the running
  index, \<open>out\<close> the list \<^verbatim>\<open>tokenized_inputs\<close> shared by all files of the batch.
\<close>

fun align_file :: "services \<Rightarrow> nat \<Rightarrow> example list \<Rightarrow> (string \<times> string) list \<Rightarrow> py_error + example list" where
  "align_file sv i out [] = Inr out"
| "align_file sv i out (r # rs) =
     (case align_record sv r of
        Inl e \<Rightarrow> Inl e
      | Inr ex \<Rightarrow> align_file sv (Suc i) (out @ [ex]) rs)"

fun align_files :: "services \<Rightarrow> example list \<Rightarrow> (string \<times> string) list list \<Rightarrow> py_error + example list" where
  "align_files sv out [] = Inr out"
| "align_files sv out (parsed_file # rest) =
     (case align_file sv 0 out parsed_file of
        Inl e \<Rightarrow> Inl e
      | Inr out' \<Rightarrow> align_files sv out' rest)"

definition lemmatize_tokenize_and_align_labels ::
  "services \<Rightarrow> (string \<times> string) list list \<Rightarrow> py_error + example list" where
  "lemmatize_tokenize_and_align_labels sv parsed_files = align_files sv [] parsed_files"

text \<open>
  A small stand-in for the external services, used to run the aligner on concrete
  records: no lemmatization, control characters are dropped (as the pretrained
  tokenizer's text cleaning does) and every remaining character is a subword of its own,
  with its character code as id.
\<close>

definition char_tokenize :: "string \<Rightarrow> string list" where
  "char_tokenize w = map (\<lambda>c. [c]) (filter (\<lambda>c. 32 < (of_char c :: nat) \<and> (of_char c :: nat) < 127) w)"

definition char_token_id :: "string \<Rightarrow> int" where
  "char_token_id t = (case t of [] \<Rightarrow> 100 | c # _ \<Rightarrow> 1000 + int (of_char c))"

definition char_services :: services where
  "char_services = \<lparr> lemmatize = (\<lambda>w. w), tokenize = char_tokenize, token_id = char_token_id,
     cls_token_id = 101, sep_token_id = 102, pad_token_id = 0 \<rparr>"


text \<open>
  Names for what the loop reads from the services: the subwords of a word, their ids, the
  ids of a whole word sequence in order (the raw subword sequence), and the label
  vocabulary.
\<close>

definition word_tokens :: "services \<Rightarrow> string \<Rightarrow> string list" where
  "word_tokens sv w = tokenize sv (lemmatize sv w)"

definition word_ids :: "services \<Rightarrow> string \<Rightarrow> int list" where
  "word_ids sv w = convert_tokens_to_ids sv (word_tokens sv w)"

definition all_ids :: "services \<Rightarrow> string list \<Rightarrow> int list" where
  "all_ids sv ws = concat (map (word_ids sv) ws)"

definition bio :: "string set" where
  "bio = {''B'', ''I'', ''O''}"

section \<open>Metrics: the derivation in \<open>evaluate_token_classification\<close>\<close>

text \<open>
  The confusion matrix is a 3 by 3 tensor of counts, \<open>confusion true pred\<close>, that starts
  at zero and is only ever incremented, so its cells are natural numbers. Only the
  indices 0, 1 and 2 exist in the tensor and only they are read.
\<close>

type_synonym confusion = "nat \<Rightarrow> nat \<Rightarrow> nat"

definition zeros :: confusion where
  "zeros = (\<lambda>i j. 0)"

text \<open>Indexing one axis of length 3: a negative index counts from the end.\<close>

definition axis_index :: "int \<Rightarrow> py_error + nat" where
  "axis_index i =
     (if 0 \<le> i \<and> i < 3 then Inr (nat i)
      else if - 3 \<le> i \<and> i < 0 then Inr (nat (i + 3))
      else Inl IndexError)"

text \<open>The innermost loop body: pairs with an ignore value on either side are skipped.\<close>

definition count_pair :: "confusion \<Rightarrow> int \<times> int \<Rightarrow> py_error + confusion" where
  "count_pair c p =
     (let true_label = fst p; pred_label = snd p
      in if \<not> (true_label = - 100 \<or> pred_label = - 100)
         then (case axis_index true_label of
                 Inl e \<Rightarrow> Inl e
               | Inr i \<Rightarrow>
                  (case axis_index pred_label of
                     Inl e \<Rightarrow> Inl e
                   | Inr j \<Rightarrow> Inr (c(i := (c i)(j := c i j + 1)))))
         else Inr c)"

fun count_pairs :: "confusion \<Rightarrow> (int \<times> int) list \<Rightarrow> py_error + confusion" where
  "count_pairs c [] = Inr c"
| "count_pairs c (p # ps) =
     (case count_pair c p of Inl e \<Rightarrow> Inl e | Inr c' \<Rightarrow> count_pairs c' ps)"

definition total_samples :: "confusion \<Rightarrow> nat" where
  "total_samples c = sum_list (map (\<lambda>i. sum_list (map (\<lambda>j. c i j) [0..<3])) [0..<3])"

definition correct_predictions :: "confusion \<Rightarrow> nat" where
  "correct_predictions c = sum_list (map (\<lambda>i. c i i) [0..<3])"

text \<open>
  Python's true division \<^verbatim>\<open>a / b\<close>, over the real numbers (the rounding of floating
  point is not modelled): a zero divisor raises.
\<close>

definition truediv :: "real \<Rightarrow> real \<Rightarrow> py_error + real" where
  "truediv a b = (if b = 0 then Inl ZeroDivisionError else Inr (a / b))"

definition accuracy :: "confusion \<Rightarrow> py_error + real" where
  "accuracy c =
     (if total_samples c > 0
      then truediv (real (correct_predictions c)) (real (total_samples c))
      else Inr 0)"

record class_metric =
  precision :: real
  recall :: real
  f1 :: real

text \<open>The body of \<^verbatim>\<open>for class_idx in range(3)\<close>.\<close>

definition class_metrics :: "confusion \<Rightarrow> nat \<Rightarrow> py_error + class_metric" where
  "class_metrics c class_idx =
     (let true_positives = int (c class_idx class_idx);
          false_positives = int (sum_list (map (\<lambda>i. c i class_idx) [0..<3])) - true_positives;
          false_negatives = int (sum_list (map (\<lambda>j. c class_idx j) [0..<3])) - true_positives
      in (case (if true_positives + false_positives > 0
                then truediv (real_of_int true_positives)
                       (real_of_int (true_positives + false_positives))
                else Inr 0) of
            Inl e \<Rightarrow> Inl e
          | Inr p \<Rightarrow>
             (case (if true_positives + false_negatives > 0
                    then truediv (real_of_int true_positives)
                           (real_of_int (true_positives + false_negatives))
                    else Inr 0) of
                Inl e \<Rightarrow> Inl e
              | Inr r \<Rightarrow>
                 (case (if p + r > 0 then truediv (2 * p * r) (p + r) else Inr 0) of
                    Inl e \<Rightarrow> Inl e
                  | Inr f \<Rightarrow> Inr \<lparr> precision = p, recall = r, f1 = f \<rparr>))))"

text \<open>
  A confusion matrix with the diagonal 10, 5, 20 and 40 counted pairs in all, to run the
  derivation on.
\<close>

definition scenario_confusion :: confusion where
  "scenario_confusion = (\<lambda>i j. [[10, 5, 0], [0, 5, 0], [0, 0, 20]] ! i ! j)"

section \<open>The training loop: \<open>train_loop_per_worker\<close>\<close>

text \<open>
  A loss is a Python float: a finite number, or one of the non-finite values (nan and
  the two infinities), which absorb every addition and every division by a length.
\<close>

datatype pyfloat = Finite real | NonFinite

fun fadd :: "pyfloat \<Rightarrow> pyfloat \<Rightarrow> pyfloat" where
  "fadd (Finite a) (Finite b) = Finite (a + b)"
| "fadd _ _ = NonFinite"

definition fdiv_len :: "pyfloat \<Rightarrow> nat \<Rightarrow> py_error + pyfloat" where
  "fdiv_len x n =
     (if n = 0 then Inl ZeroDivisionError
      else Inr (case x of Finite a \<Rightarrow> Finite (a / real n) | NonFinite \<Rightarrow> NonFinite))"

record train_config =
  num_epochs :: int
  checkpoint_freq :: int

text \<open>
  What \<^verbatim>\<open>ray.train.report\<close> receives: the metrics dictionary (the two accuracies are
  optional keys) and the optional checkpoint, named by the number in its directory
  \<^verbatim>\<open>epoch_{epoch + 1}\<close>.
\<close>

record report =
  loss :: pyfloat
  val_accuracy :: "real option"
  train_accuracy :: "real option"
  checkpoint :: "nat option"

text \<open>
  What one epoch of one worker observes from the model, which is external: the loss of
  each batch in order, and the accuracies the evaluation returns on the training and
  the validation data.
\<close>

record epoch_run =
  batch_losses :: "pyfloat list"
  train_acc :: real
  val_acc :: real

text \<open>
  The body of \<^verbatim>\<open>for epoch in range(epochs)\<close>. \<^verbatim>\<open>and\<close> evaluates its second operand,
  the remainder, only for the worker of rank 0; a zero frequency raises there.
\<close>

definition epoch_step :: "train_config \<Rightarrow> int \<Rightarrow> nat \<Rightarrow> epoch_run \<Rightarrow> py_error + report" where
  "epoch_step config world_rank epoch obs =
     (let epoch_loss = foldl fadd (Finite 0) (batch_losses obs);
          train_accuracy = train_acc obs
      in (case fdiv_len epoch_loss (length (batch_losses obs)) of
            Inl e \<Rightarrow> Inl e
          | Inr avg_loss \<Rightarrow>
              if world_rank = 0
              then (if checkpoint_freq config = 0 then Inl ZeroDivisionError
                    else if int epoch mod checkpoint_freq config = 0
                    then Inr \<lparr> loss = avg_loss, val_accuracy = Some (val_acc obs),
                               train_accuracy = Some train_accuracy,
                               checkpoint = Some (epoch + 1) \<rparr>
                    else Inr \<lparr> loss = avg_loss, val_accuracy = None,
                               train_accuracy = None, checkpoint = None \<rparr>)
              else Inr \<lparr> loss = avg_loss, val_accuracy = None,
                         train_accuracy = None, checkpoint = None \<rparr>))"





text \<open>All workers of one trial at one epoch; the orchestrator numbers them from 0.\<close>

definition world_epoch ::
  "train_config \<Rightarrow> nat \<Rightarrow> nat \<Rightarrow> (nat \<Rightarrow> epoch_run) \<Rightarrow> (py_error + report) list" where
  "world_epoch config num_workers epoch obs =
     map (\<lambda>rank. epoch_step config (int rank) epoch (obs rank)) [0..<num_workers]"

definition creates_checkpoint :: "py_error + report \<Rightarrow> bool" where
  "creates_checkpoint out = (case out of Inl e \<Rightarrow> False | Inr r \<Rightarrow> checkpoint r \<noteq> None)"

subsection \<open>Trainable parameters\<close>

text \<open>
  A token classification model has the parameters of its base encoder and those of its
  classification head; each parameter carries the flag \<^verbatim>\<open>requires_grad\<close>.
\<close>

record param =
  pname :: string
  requires_grad :: bool
  weight :: real

record token_classifier =
  distilbert :: "param list"
  classifier :: "param list"

definition parameters :: "token_classifier \<Rightarrow> param list" where
  "parameters m = distilbert m @ classifier m"

text \<open>The notebook cell that freezes the encoder of the notebook's own \<^verbatim>\<open>model\<close>.\<close>

definition freeze_cell :: "token_classifier \<Rightarrow> token_classifier" where
  "freeze_cell m =
     \<lparr> distilbert = map (\<lambda>p. p\<lparr>requires_grad := False\<rparr>) (distilbert m),
       classifier = map (\<lambda>p. p\<lparr>requires_grad := True\<rparr>) (classifier m) \<rparr>"

text \<open>
  The worker loads its own model and hands the optimizer the parameters whose flag is
  set; between the load and the optimizer nothing touches the flags.
\<close>

definition optimizer_params :: "token_classifier \<Rightarrow> param list" where
  "optimizer_params m = filter requires_grad (parameters m)"

text \<open>
  One optimizer step: the parameters the optimizer holds move by their update, the
  others stay. The update itself (gradient, learning rate, decay) is external.
\<close>

definition step_param :: "(param \<Rightarrow> real) \<Rightarrow> param \<Rightarrow> param" where
  "step_param upd p = (if requires_grad p then p\<lparr>weight := upd p\<rparr> else p)"

definition optimizer_step :: "(param \<Rightarrow> real) \<Rightarrow> token_classifier \<Rightarrow> token_classifier" where
  "optimizer_step upd m =
     \<lparr> distilbert = map (step_param upd) (distilbert m),
       classifier = map (step_param upd) (classifier m) \<rparr>"

section \<open>Concrete runs\<close>

text \<open>
  Two workers' worth of observations for a two-epoch run that checkpoints every epoch,
  a run whose loss stops being finite in its second epoch, and a freshly loaded model,
  in which every parameter has \<^verbatim>\<open>requires_grad\<close> set (the library's default).
\<close>

definition scenario_config :: train_config where
  "scenario_config = \<lparr> num_epochs = 2, checkpoint_freq = 1 \<rparr>"

definition steady_obs :: "nat \<Rightarrow> epoch_run" where
  "steady_obs k = \<lparr> batch_losses = [Finite 1, Finite 3], train_acc = 1 / 2, val_acc = 1 / 4 \<rparr>"


definition loaded_model :: token_classifier where
  "loaded_model =
     \<lparr> distilbert = [\<lparr> pname = ''distilbert.embeddings.word_embeddings.weight'',
                         requires_grad = True, weight = 0 \<rparr>],
       classifier = [\<lparr> pname = ''classifier.weight'', requires_grad = True, weight = 0 \<rparr>,
                     \<lparr> pname = ''classifier.bias'', requires_grad = True, weight = 0 \<rparr>] \<rparr>"

section \<open>Properties of the label aligner\<close>

subsection \<open>The loop body\<close>

lemma label_to_int_Some: "l \<in> bio \<Longrightarrow> \<exists>v. label_to_int l = Some v \<and> v \<in> {0, 1, 2}"
  by (auto simp: bio_def label_to_int_def)

lemma label_to_int_None: "l \<notin> bio \<Longrightarrow> label_to_int l = None"
  by (auto simp: bio_def label_to_int_def)

lemma label_to_int_range: "label_to_int l = Some v \<Longrightarrow> l \<in> bio \<and> v \<in> {0, 1, 2}"
  by (auto simp: bio_def label_to_int_def split: if_splits)

lemma length_word_ids: "length (word_ids sv w) = length (word_tokens sv w)"
  by (simp add: word_ids_def convert_tokens_to_ids_def)

lemma align_word_skip:
  "word_tokens sv w = [] \<Longrightarrow> align_word sv (ids, labs) (w, l) = Inr (Next (ids, labs))"
  by (simp add: align_word_def word_tokens_def)

lemma align_word_KeyError:
  "word_tokens sv w \<noteq> [] \<Longrightarrow> label_to_int l = None \<Longrightarrow>
   align_word sv (ids, labs) (w, l) = Inl (KeyError l)"
  by (simp add: align_word_def word_tokens_def label_id_def Let_def)

lemma align_word_Break:
  "word_tokens sv w \<noteq> [] \<Longrightarrow> label_to_int l = Some v \<Longrightarrow>
   length ids + length (word_tokens sv w) > max_length - 2 \<Longrightarrow>
   align_word sv (ids, labs) (w, l) = Inr (Break (ids @ word_ids sv w, labs @ [v]))"
  by (simp add: align_word_def word_tokens_def word_ids_def label_id_def Let_def
      convert_tokens_to_ids_def)

lemma align_word_Next:
  "word_tokens sv w \<noteq> [] \<Longrightarrow> label_to_int l = Some v \<Longrightarrow>
   length ids + length (word_tokens sv w) \<le> max_length - 2 \<Longrightarrow>
   align_word sv (ids, labs) (w, l) =
     Inr (Next (ids @ word_ids sv w,
       labs @ v # replicate (length (word_tokens sv w) - 1) (if l = ''B'' then 1 else v)))"
  apply (cases "l = ''B''")
   apply (auto simp add: align_word_def word_tokens_def word_ids_def label_id_def Let_def
      convert_tokens_to_ids_def label_to_int_def not_less split: if_splits)
  done



lemma word_tokens_Nil_ids: "word_tokens sv w = [] \<Longrightarrow> word_ids sv w = []"
  by (simp add: word_ids_def convert_tokens_to_ids_def)

lemma align_words_shape:
  "align_words sv (ids, labs) pairs = Inr (ids', labs') \<Longrightarrow>
   length labs = length ids \<Longrightarrow> length ids \<le> max_length - 2 \<Longrightarrow>
   (\<exists>rest. ids @ all_ids sv (map fst pairs) = ids' @ rest \<and>
      (rest \<noteq> [] \<longrightarrow> length ids' > max_length - 2)) \<and>
   length labs' \<le> length ids' \<and>
   (length ids' \<le> max_length - 2 \<longrightarrow> length labs' = length ids') \<and>
   length labs' \<le> max_length - 1"
proof (induction pairs arbitrary: ids labs)
  case Nil
  then show ?case by (simp add: all_ids_def max_length_def)
next
  case (Cons wl rest)
  obtain w l where wl: "wl = (w, l)" by (cases wl)
  show ?case
  proof (cases "word_tokens sv w = []")
    case True
    with Cons.prems wl have "align_words sv (ids, labs) rest = Inr (ids', labs')"
      by (simp add: align_word_skip)
    from Cons.IH [OF this Cons.prems(2,3)] True wl show ?thesis
      by (simp add: all_ids_def word_tokens_Nil_ids)
  next
    case False
    show ?thesis
    proof (cases "label_to_int l")
      case None
      with Cons.prems False wl show ?thesis by (simp add: align_word_KeyError)
    next
      case (Some v)
      show ?thesis
      proof (cases "length ids + length (word_tokens sv w) > max_length - 2")
        case True
        with Cons.prems False Some wl
        have eq: "ids' = ids @ word_ids sv w" "labs' = labs @ [v]"
          by (simp_all add: align_word_Break)
        have k: "length (word_tokens sv w) \<ge> 1" using False by (cases "word_tokens sv w") auto
        have "ids @ all_ids sv (map fst (wl # rest)) = ids' @ all_ids sv (map fst rest)"
          using eq wl by (simp add: all_ids_def)
        moreover have "length ids' > max_length - 2"
          using eq True by (simp add: length_word_ids)
        ultimately show ?thesis
          using eq k Cons.prems(2,3) by (auto simp: length_word_ids max_length_def)
      next
        case no: False
        let ?ids = "ids @ word_ids sv w"
        let ?labs = "labs @ v # replicate (length (word_tokens sv w) - 1) (if l = ''B'' then 1 else v)"
        from no have le: "length ids + length (word_tokens sv w) \<le> max_length - 2" by simp
        from Cons.prems(1) wl have run: "align_words sv (?ids, ?labs) rest = Inr (ids', labs')"
          by (simp add: align_word_Next [OF False Some le])
        have k: "length (word_tokens sv w) \<ge> 1" using False by (cases "word_tokens sv w") auto
        have l1: "length ?labs = length ?ids"
          using Cons.prems(2) k by (simp add: length_word_ids)
        have l2: "length ?ids \<le> max_length - 2" using le by (simp add: length_word_ids)
        from Cons.IH [OF run l1 l2] wl show ?thesis
          by (simp add: all_ids_def)
      qed
    qed
  qed
qed


lemma align_words_valid:
  "\<forall>p \<in> set pairs. snd p \<in> bio \<Longrightarrow> set labs \<subseteq> {0, 1, 2} \<Longrightarrow>
   \<exists>ids' labs'. align_words sv (ids, labs) pairs = Inr (ids', labs') \<and> set labs' \<subseteq> {0, 1, 2}"
proof (induction pairs arbitrary: ids labs)
  case Nil
  then show ?case by simp
next
  case (Cons wl rest)
  obtain w l where wl: "wl = (w, l)" by (cases wl)
  from Cons.prems(1) wl obtain v where v: "label_to_int l = Some v" "v \<in> {0, 1, 2}"
    using label_to_int_Some [of l] by auto
  have rest: "\<forall>p \<in> set rest. snd p \<in> bio" using Cons.prems(1) by simp
  show ?case
  proof (cases "word_tokens sv w = []")
    case True
    with Cons.IH [OF rest Cons.prems(2)] wl show ?thesis by (simp add: align_word_skip)
  next
    case False
    show ?thesis
    proof (cases "length ids + length (word_tokens sv w) > max_length - 2")
      case True
      with False v wl Cons.prems(2) show ?thesis by (simp add: align_word_Break)
    next
      case no: False
      then have le: "length ids + length (word_tokens sv w) \<le> max_length - 2" by simp
      let ?labs = "labs @ v # replicate (length (word_tokens sv w) - 1) (if l = ''B'' then 1 else v)"
      have "set ?labs \<subseteq> {0, 1, 2}" using Cons.prems(2) v by auto
      from Cons.IH [OF rest this, of "ids @ word_ids sv w"] wl show ?thesis
        by (simp add: align_word_Next [OF False v(1) le])
    qed
  qed
qed

lemma finalize_input_ids_length: "length (input_ids (finalize sv (ids, labs))) = max_length"
  by (auto simp add: finalize_def Let_def max_length_def)

lemma finalize_attention_mask_length: "length (attention_mask (finalize sv (ids, labs))) = max_length"
  by (auto simp add: finalize_def Let_def max_length_def)

lemma finalize_labels_length:
  "length (labels (finalize sv (ids, labs))) =
     (if length ids > max_length - 2 then min (max_length - 2) (length labs) + 2
      else length labs + 2 + (max_length - 2 - length ids))"
  by (auto simp add: finalize_def Let_def max_length_def)

lemma finalize_input_ids_truncated:
  "length ids > max_length - 2 \<Longrightarrow>
   input_ids (finalize sv (ids, labs)) = cls_token_id sv # take (max_length - 2) ids @ [sep_token_id sv]"
  by (simp add: finalize_def Let_def max_length_def)

lemma finalize_attention_mask_truncated:
  "length ids > max_length - 2 \<Longrightarrow>
   attention_mask (finalize sv (ids, labs)) = replicate max_length 1"
  by (simp add: finalize_def Let_def max_length_def)

lemma finalize_labels_set:
  "set labs \<subseteq> {0, 1, 2} \<Longrightarrow> set (labels (finalize sv (ids, labs))) \<subseteq> {0, 1, 2, - 100}"
  by (auto simp add: finalize_def Let_def dest: in_set_takeD)



subsection \<open>Running the aligner on concrete records\<close>

text \<open>
  Evaluation lemmas for the stand-in services on records made of \<open>n\<close> one-letter words
  followed by one more word: the first \<open>n\<close> words fill \<open>n\<close> content slots, the last word
  is handled by one more pass of the loop body.
\<close>

lemma py_split_a: "py_split (CHR ''a'' # CHR '' '' # s) = ''a'' # py_split s"
  by (simp add: py_split_def is_space_def)

lemma py_split_O: "py_split (CHR ''O'' # CHR '' '' # s) = ''O'' # py_split s"
  by (simp add: py_split_def is_space_def)

lemma py_split_rep_a: "py_split (concat (replicate n ''a '') @ s) = replicate n ''a'' @ py_split s"
  by (induction n) (simp_all add: py_split_a)

lemma py_split_rep_O: "py_split (concat (replicate n ''O '') @ s) = replicate n ''O'' @ py_split s"
  by (induction n) (simp_all add: py_split_O)

lemma py_lower_rep_a: "py_lower (concat (replicate n ''a '') @ s) = concat (replicate n ''a '') @ py_lower s"
  by (induction n) (simp_all add: py_lower_def lower_char_def)

lemma word_tokens_a: "word_tokens char_services ''a'' = [''a'']"
  by (simp add: word_tokens_def char_services_def char_tokenize_def)

lemma word_ids_a: "word_ids char_services ''a'' = [1097]"
  unfolding word_ids_def word_tokens_a
  by (simp add: convert_tokens_to_ids_def char_services_def char_token_id_def)

lemma all_ids_rep_a: "all_ids char_services (replicate n ''a'') = replicate n 1097"
  by (induction n) (simp_all add: all_ids_def word_ids_a)

lemma label_to_int_O: "label_to_int ''O'' = Some 2"
  by (simp add: label_to_int_def)

lemma align_words_rep_a:
  "length ids + n \<le> max_length - 2 \<Longrightarrow>
   align_words char_services (ids, labs) (replicate n (''a'', ''O'') @ rest) =
   align_words char_services (ids @ replicate n 1097, labs @ replicate n 2) rest"
proof (induction n arbitrary: ids labs)
  case 0
  then show ?case by simp
next
  case (Suc n)
  have le: "length ids + length (word_tokens char_services ''a'') \<le> max_length - 2"
    using Suc.prems by (simp add: word_tokens_a)
  have ne: "word_tokens char_services ''a'' \<noteq> []" by (simp add: word_tokens_a)
  have "length (ids @ [1097]) + n \<le> max_length - 2" using Suc.prems by simp
  from Suc.IH [OF this, of "labs @ [2]"] show ?case
    by (simp add: align_word_Next [OF ne label_to_int_O le] word_ids_a word_tokens_a
        replicate_app_Cons_same)
qed


lemma zip_rep_snoc:
  "zip (replicate n a @ [w]) (replicate n b @ [l]) = replicate n (a, b) @ [(w, l)]"
  by simp

lemma align_lists_rep_a:
  assumes "n \<le> max_length - 2"
  shows "align_lists char_services (replicate n ''O'' @ [l]) (replicate n ''a'' @ [w]) =
     (case align_word char_services (replicate n 1097, replicate n 2) (w, l) of
        Inl e \<Rightarrow> Inl e
      | Inr (Next st) \<Rightarrow> Inr (finalize char_services st)
      | Inr (Break st) \<Rightarrow> Inr (finalize char_services st))"
proof -
  have "align_words char_services ([], []) (replicate n (''a'', ''O'') @ [(w, l)]) =
        align_words char_services ([] @ replicate n 1097, [] @ replicate n 2) [(w, l)]"
    by (rule align_words_rep_a) (use assms in simp)
  then show ?thesis
    by (simp add: align_lists_def zip_rep_snoc split: sum.splits flow.splits)
qed

lemma align_record_rep_a:
  assumes "n \<le> max_length - 2" "py_split l = [l]" "py_split (py_lower w) = [w']"
  shows "align_record char_services (concat (replicate n ''O '') @ l, concat (replicate n ''a '') @ w) =
     (case align_word char_services (replicate n 1097, replicate n 2) (w', l) of
        Inl e \<Rightarrow> Inl e
      | Inr (Next st) \<Rightarrow> Inr (finalize char_services st)
      | Inr (Break st) \<Rightarrow> Inr (finalize char_services st))"
  using align_lists_rep_a [OF assms(1), of l w'] assms(2,3)
  by (simp add: align_record_def py_split_rep_a py_split_rep_O py_lower_rep_a)

lemma word_tokens_abc: "word_tokens char_services ''abc'' = [''a'', ''b'', ''c'']"
  by (simp add: word_tokens_def char_services_def char_tokenize_def)

lemma word_ids_abc: "word_ids char_services ''abc'' = [1097, 1098, 1099]"
  unfolding word_ids_def word_tokens_abc
  by (simp add: convert_tokens_to_ids_def char_services_def char_token_id_def)

lemma align_record_508_abc:
  assumes "label_to_int l = Some v" "py_split l = [l]"
  shows "align_record char_services
      (concat (replicate 508 ''O '') @ l, concat (replicate 508 ''a '') @ ''abc'') =
    Inr \<lparr> input_ids = 101 # replicate 508 1097 @ [1097, 1098, 102],
          attention_mask = replicate 512 1,
          labels = - 100 # replicate 508 2 @ [v, - 100] \<rparr>"
proof -
  have sp: "py_split (py_lower ''abc'') = [''abc'']"
    by (simp add: py_split_def py_lower_def lower_char_def is_space_def)
  have ne: "word_tokens char_services ''abc'' \<noteq> []" by (simp add: word_tokens_abc)
  have ov: "length (replicate 508 (1097::int)) + length (word_tokens char_services ''abc'') > max_length - 2"
    by (simp add: word_tokens_abc max_length_def)
  have fin: "finalize char_services (replicate 508 1097 @ [1097, 1098, 1099], replicate 508 2 @ [v]) =
    \<lparr> input_ids = 101 # replicate 508 1097 @ [1097, 1098, 102],
      attention_mask = replicate 512 1,
      labels = - 100 # replicate 508 2 @ [v, - 100] \<rparr>"
    by (simp add: finalize_def Let_def max_length_def char_services_def)
  show ?thesis
    using align_record_rep_a [of 508 l "''abc''" "''abc''", OF _ assms(2) sp]
    by (simp add: align_word_Break [OF ne assms(1) ov] word_ids_abc fin max_length_def)
qed


lemma py_split_rep_a_only: "py_split (concat (replicate n ''a '')) = replicate n ''a''"
  using py_split_rep_a [of n "[]"] by (simp add: py_split_def)

lemma py_split_rep_O_only: "py_split (concat (replicate n ''O '')) = replicate n ''O''"
  using py_split_rep_O [of n "[]"] by (simp add: py_split_def)

lemma py_lower_rep_a_only: "py_lower (concat (replicate n ''a '')) = concat (replicate n ''a '')"
  using py_lower_rep_a [of n "[]"] by (simp add: py_lower_def)

lemma align_record_valid:
  assumes "length (py_split label_str) = length (py_split (py_lower sentence))"
      and "set (py_split label_str) \<subseteq> bio"
  shows "\<exists>ex. align_record sv (label_str, sentence) = Inr ex \<and>
           set (labels ex) \<subseteq> {0, 1, 2, - 100}"
proof -
  have "\<forall>p \<in> set (zip (py_split (py_lower sentence)) (py_split label_str)). snd p \<in> bio"
    using assms(2) by (auto dest: set_zip_rightD)
  from align_words_valid [OF this, of "[]" sv "[]"] obtain ids' labs' where
    "align_words sv ([], []) (zip (py_split (py_lower sentence)) (py_split label_str)) = Inr (ids', labs')"
    "set labs' \<subseteq> {0, 1, 2}"
    by auto
  then show ?thesis
    using assms(1) finalize_labels_set [of labs' sv ids']
    by (simp add: align_record_def align_lists_def)
qed

subsection \<open>Output lengths\<close>

text \<open>
  When nothing is truncated the three sequences have the length \<open>max_length\<close>: every
  word contributes as many labels as subwords.
\<close>

lemma align_record_lengths_untruncated:
  assumes len: "length (py_split label_str) = length (py_split (py_lower sentence))"
      and fit: "length (all_ids sv (py_split (py_lower sentence))) \<le> max_length - 2"
      and run: "align_record sv (label_str, sentence) = Inr ex"
  shows "length (input_ids ex) = max_length \<and> length (attention_mask ex) = max_length
       \<and> length (labels ex) = max_length"
proof -
  let ?ws = "py_split (py_lower sentence)"
  let ?ls = "py_split label_str"
  from run len obtain ids' labs' where
    st: "align_words sv ([], []) (zip ?ws ?ls) = Inr (ids', labs')" and ex: "ex = finalize sv (ids', labs')"
    by (auto simp: align_record_def align_lists_def split: sum.splits)
  from align_words_shape [OF st] obtain rest where
    r: "all_ids sv (map fst (zip ?ws ?ls)) = ids' @ rest"
    and eq: "length ids' \<le> max_length - 2 \<longrightarrow> length labs' = length ids'"
    by (auto simp: max_length_def)
  have "length ids' \<le> max_length - 2" using r fit len by simp
  with eq ex show ?thesis
    by (simp add: finalize_input_ids_length finalize_attention_mask_length
        finalize_labels_length max_length_def)
qed

text \<open>
  Claim C1. For every record with as many labels as words, the three output sequences
  (token ids, attention mask, label ids) all have the length \<open>max_length\<close>, also after
  truncation. The aligner does not do this: a record of 508 one-subword words followed
  by a word of three subwords crosses the limit inside the last word, the loop leaves
  before that word's continuation labels are appended, and the label sequence has 511
  entries beside 512 token ids and 512 mask entries.
\<close>

theorem C1_labels_shorter_after_truncation:
  "map_sum id (length \<circ> input_ids) (align_record char_services
      (concat (replicate 508 ''O '') @ ''O'', concat (replicate 508 ''a '') @ ''abc'')) = Inr 512
   \<and> map_sum id (length \<circ> attention_mask) (align_record char_services
      (concat (replicate 508 ''O '') @ ''O'', concat (replicate 508 ''a '') @ ''abc'')) = Inr 512
   \<and> map_sum id (length \<circ> labels) (align_record char_services
      (concat (replicate 508 ''O '') @ ''O'', concat (replicate 508 ''a '') @ ''abc'')) = Inr 511"
proof -
  have "py_split ''O'' = [''O'']" by (simp add: py_split_def is_space_def)
  from align_record_508_abc [OF label_to_int_O this] show ?thesis by simp
qed


subsection \<open>Truncation\<close>

text \<open>
  When the raw subword count of a record exceeds \<open>max_length - 2\<close>, the token ids
  between the begin and the end marker are exactly the first \<open>max_length - 2\<close> raw
  subword ids, so a word cut by the limit keeps the subwords that fit; the whole sequence
  is attended to, and the label sequence is never longer than \<open>max_length\<close>.
\<close>

lemma truncated_token_content:
  assumes len: "length (py_split label_str) = length (py_split (py_lower sentence))"
      and over: "length (all_ids sv (py_split (py_lower sentence))) > max_length - 2"
      and run: "align_record sv (label_str, sentence) = Inr ex"
  shows "input_ids ex = cls_token_id sv #
           take (max_length - 2) (all_ids sv (py_split (py_lower sentence))) @ [sep_token_id sv]
       \<and> length (take (max_length - 2) (all_ids sv (py_split (py_lower sentence)))) = max_length - 2
       \<and> attention_mask ex = replicate max_length 1
       \<and> length (labels ex) \<le> max_length"
proof -
  let ?ws = "py_split (py_lower sentence)"
  let ?ls = "py_split label_str"
  from run len obtain ids' labs' where
    st: "align_words sv ([], []) (zip ?ws ?ls) = Inr (ids', labs')" and ex: "ex = finalize sv (ids', labs')"
    by (auto simp: align_record_def align_lists_def split: sum.splits)
  from align_words_shape [OF st] obtain rest where
    r: "all_ids sv (map fst (zip ?ws ?ls)) = ids' @ rest" "rest \<noteq> [] \<longrightarrow> length ids' > max_length - 2"
    and lb: "length labs' \<le> max_length - 1"
    by (auto simp: max_length_def)
  have all: "all_ids sv ?ws = ids' @ rest" using r(1) len by simp
  have big: "length ids' > max_length - 2"
  proof (cases "rest = []")
    case True
    with all over show ?thesis by simp
  next
    case False
    with r(2) show ?thesis by simp
  qed
  have tk: "take (max_length - 2) (all_ids sv ?ws) = take (max_length - 2) ids'"
    using all big by simp
  have cl: "length (take (max_length - 2) (all_ids sv ?ws)) = max_length - 2"
    using over by simp
  have "input_ids ex = cls_token_id sv # take (max_length - 2) (all_ids sv ?ws) @ [sep_token_id sv]
       \<and> attention_mask ex = replicate max_length 1
       \<and> length (labels ex) \<le> max_length"
    using big tk ex
    by (simp add: finalize_input_ids_truncated finalize_attention_mask_truncated
        finalize_labels_length max_length_def)
  with cl show ?thesis by simp
qed



lemma all_ids_append: "all_ids sv (xs @ ys) = all_ids sv xs @ all_ids sv ys"
  by (simp add: all_ids_def)

text \<open>
  Claim C4. When the raw subword count exceeds \<open>max_length - 2\<close>, the content between
  the begin and the end marker has length exactly \<open>max_length - 2\<close>, and the subwords of
  the word in progress that were appended before the limit are kept. The aligner does
  this for the token ids and not for the label ids: in the record of 508 one-subword
  words followed by \<open>abc\<close> (three subwords, 511 raw subwords in all) the token content
  has \<open>max_length - 2 = 510\<close> ids and keeps the first two subwords of \<open>abc\<close>, but only
  the first label of \<open>abc\<close> was appended before the loop was left, so the label content
  between the two markers has 509 entries.
\<close>

theorem C4_label_content_after_truncation:
  "align_record char_services
      (concat (replicate 508 ''O '') @ ''I'', concat (replicate 508 ''a '') @ ''abc'') =
    Inr \<lparr> input_ids = 101 # replicate 508 1097 @ [1097, 1098, 102],
          attention_mask = replicate 512 1,
          labels = - 100 # replicate 508 2 @ [1, - 100] \<rparr>
   \<and> length (all_ids char_services
        (py_split (py_lower (concat (replicate 508 ''a '') @ ''abc'')))) = 511
   \<and> length (replicate 508 (1097::int) @ [1097, 1098]) = max_length - 2
   \<and> length (replicate 508 (2::int) @ [1]) = 509"
proof -
  have sI: "py_split ''I'' = [''I'']" by code_simp
  have lI: "label_to_int ''I'' = Some 1" by (simp add: label_to_int_def)
  have sabc: "py_split (py_lower ''abc'') = [''abc'']" by code_simp
  have "all_ids char_services [''abc''] = [1097, 1098, 1099]"
    by (simp add: all_ids_def word_ids_abc)
  then have "length (all_ids char_services
        (py_split (py_lower (concat (replicate 508 ''a '') @ ''abc'')))) = 511"
    by (simp add: py_lower_rep_a py_split_rep_a sabc all_ids_append all_ids_rep_a)
  with align_record_508_abc [OF lI sI] show ?thesis
    by (simp add: max_length_def)
qed

subsection \<open>Continuation labels\<close>

lemma align_words_extends:
  "align_words sv (ids, labs) pairs = Inr (ids', labs') \<Longrightarrow> \<exists>b. labs' = labs @ b"
proof (induction pairs arbitrary: ids labs)
  case Nil
  then show ?case by simp
next
  case (Cons wl rest)
  show ?case
  proof (cases "align_word sv (ids, labs) wl")
    case (Inl e)
    with Cons.prems show ?thesis by simp
  next
    case (Inr fl)
    have step: "\<And>st. fl = Next st \<or> fl = Break st \<Longrightarrow> \<exists>b. snd st = labs @ b"
      using Inr
      by (auto simp: align_word_def Let_def label_id_def split: if_splits sum.splits option.splits)
    show ?thesis
    proof (cases fl)
      case (Next st)
      obtain i2 l2 where st: "st = (i2, l2)" by (cases st)
      from step [of st] Next st obtain b where b: "l2 = labs @ b" by auto
      from Cons.prems Inr Next st have "align_words sv (i2, l2) rest = Inr (ids', labs')" by simp
      from Cons.IH [OF this] b show ?thesis by auto
    next
      case (Break st)
      with step [of st] Cons.prems Inr show ?thesis by auto
    qed
  qed
qed

lemma align_words_prefix:
  "align_words sv (ids, labs) (xs @ ys) = Inr r \<Longrightarrow>
   length ids + length (all_ids sv (map fst xs)) \<le> max_length - 2 \<Longrightarrow>
   \<exists>labs2. length labs2 = length (all_ids sv (map fst xs)) \<and>
     align_words sv (ids @ all_ids sv (map fst xs), labs @ labs2) ys = Inr r"
proof (induction xs arbitrary: ids labs)
  case Nil
  then show ?case by (simp add: all_ids_def)
next
  case (Cons wl xs)
  obtain w l where wl: "wl = (w, l)" by (cases wl)
  have split: "all_ids sv (map fst (wl # xs)) = word_ids sv w @ all_ids sv (map fst xs)"
    using wl by (simp add: all_ids_def)
  show ?case
  proof (cases "word_tokens sv w = []")
    case True
    with Cons.prems wl have "align_words sv (ids, labs) (xs @ ys) = Inr r"
      by (simp add: align_word_skip)
    moreover have "length ids + length (all_ids sv (map fst xs)) \<le> max_length - 2"
      using Cons.prems(2) split by simp
    ultimately show ?thesis
      using Cons.IH [of ids labs] split True by (simp add: word_tokens_Nil_ids)
  next
    case False
    have le: "length ids + length (word_tokens sv w) \<le> max_length - 2"
      using Cons.prems(2) split by (simp add: length_word_ids)
    show ?thesis
    proof (cases "label_to_int l")
      case None
      with Cons.prems False wl show ?thesis by (simp add: align_word_KeyError)
    next
      case (Some v)
      let ?seg = "v # replicate (length (word_tokens sv w) - 1) (if l = ''B'' then 1 else v)"
      have run: "align_words sv (ids @ word_ids sv w, labs @ ?seg) (xs @ ys) = Inr r"
        using Cons.prems(1) wl by (simp add: align_word_Next [OF False Some le])
      have fit: "length (ids @ word_ids sv w) + length (all_ids sv (map fst xs)) \<le> max_length - 2"
        using Cons.prems(2) split by simp
      from Cons.IH [OF run fit] obtain labs2 where
        l2: "length labs2 = length (all_ids sv (map fst xs))"
        and r2: "align_words sv ((ids @ word_ids sv w) @ all_ids sv (map fst xs), (labs @ ?seg) @ labs2) ys = Inr r"
        by blast
      have k: "length ?seg = length (word_ids sv w)"
        using False by (cases "word_tokens sv w") (simp_all add: length_word_ids)
      have "length (?seg @ labs2) = length (all_ids sv (map fst (wl # xs)))"
        using l2 k split by simp
      moreover have "align_words sv (ids @ all_ids sv (map fst (wl # xs)), labs @ (?seg @ labs2)) ys = Inr r"
        using r2 split by simp
      ultimately show ?thesis by blast
    qed
  qed
qed


lemma Cons_replicate_pred: "0 < n \<Longrightarrow> x # replicate (n - 1) x = replicate n x"
  by (cases n) simp_all

lemma finalize_labels_segment:
  assumes "labs = pre @ seg @ b" "length pre + length seg \<le> max_length - 2"
  shows "take (length seg) (drop (Suc (length pre)) (labels (finalize sv (ids, labs)))) = seg"
proof -
  have "take (length seg) (drop (length pre) (take (max_length - 2) labs)) = seg"
    using assms by (simp add: drop_take)
  moreover have "take (length seg) (drop (length pre) labs) = seg"
    using assms by simp
  moreover have "length pre + length seg \<le> length (take (max_length - 2) labs)"
    using assms by simp
  moreover have "length pre + length seg \<le> length labs"
    using assms by simp
  ultimately show ?thesis
    by (simp add: finalize_def Let_def)
qed


text \<open>
  A word that fits below the limit with all its subwords gets one label per subword.
\<close>

lemma continuation_labels_of_fitting_word:
  assumes run: "align_record sv (label_str, sentence) = Inr ex"
      and j: "j < length (py_split (py_lower sentence))"
      and k: "k = length (word_tokens sv (py_split (py_lower sentence) ! j))" "k > 1"
      and p: "p = length (all_ids sv (take j (py_split (py_lower sentence))))"
      and fit: "p + k \<le> max_length - 2"
  shows "py_split label_str ! j \<in> bio \<and>
     (py_split label_str ! j = ''B'' \<longrightarrow>
        take k (drop (Suc p) (labels ex)) = 0 # replicate (k - 1) 1) \<and>
     (py_split label_str ! j = ''I'' \<longrightarrow>
        take k (drop (Suc p) (labels ex)) = replicate k 1) \<and>
     (py_split label_str ! j = ''O'' \<longrightarrow>
        take k (drop (Suc p) (labels ex)) = replicate k 2)"
proof -
  let ?ws = "py_split (py_lower sentence)"
  let ?ls = "py_split label_str"
  let ?ps = "zip ?ws ?ls"
  let ?w = "?ws ! j"
  let ?l = "?ls ! j"
  from run have len: "length ?ls = length ?ws"
    by (auto simp: align_record_def align_lists_def split: if_splits)
  from run len obtain ids' labs' where
    st: "align_words sv ([], []) ?ps = Inr (ids', labs')" and ex: "ex = finalize sv (ids', labs')"
    by (auto simp: align_record_def align_lists_def split: sum.splits)
  have jp: "j < length ?ps" using j len by simp
  have nth: "?ps ! j = (?w, ?l)" using j len by simp
  have dec: "?ps = take j ?ps @ (?w, ?l) # drop (Suc j) ?ps"
    using id_take_nth_drop [OF jp] nth by simp
  have pre: "map fst (take j ?ps) = take j ?ws"
    using len by (simp add: take_map [symmetric])
  have st': "align_words sv ([], []) (take j ?ps @ (?w, ?l) # drop (Suc j) ?ps) = Inr (ids', labs')"
    using st dec by simp
  have fit': "length ([]::int list) + length (all_ids sv (map fst (take j ?ps))) \<le> max_length - 2"
    using fit p pre by simp
  from align_words_prefix [OF st' fit'] obtain labs2 where
    l2: "length labs2 = p"
    and r2: "align_words sv (all_ids sv (take j ?ws), labs2) ((?w, ?l) # drop (Suc j) ?ps) = Inr (ids', labs')"
    using pre p by auto
  have ne: "word_tokens sv ?w \<noteq> []" using k by auto
  have le: "length (all_ids sv (take j ?ws)) + length (word_tokens sv ?w) \<le> max_length - 2"
    using fit p k by simp
  show ?thesis
  proof (cases "label_to_int ?l")
    case None
    with r2 ne show ?thesis by (simp add: align_word_KeyError)
  next
    case (Some v)
    let ?seg = "v # replicate (k - 1) (if ?l = ''B'' then 1 else v)"
    from r2 have "align_words sv (all_ids sv (take j ?ws) @ word_ids sv ?w, labs2 @ ?seg)
        (drop (Suc j) ?ps) = Inr (ids', labs')"
      using k by (simp add: align_word_Next [OF ne Some le])
    from align_words_extends [OF this] obtain b where b: "labs' = labs2 @ ?seg @ b" by auto
    have sl: "length ?seg = k" using k by simp
    have "length labs2 + length ?seg \<le> max_length - 2" using l2 sl fit by simp
    from finalize_labels_segment [OF b this, of sv ids'] have
      seg: "take k (drop (Suc p) (labels ex)) = ?seg"
      using l2 sl ex by simp
    have rep: "\<And>x::int. x # replicate (k - 1) x = replicate k x"
    proof -
      fix x :: int
      have "0 < k" using k(2) by simp
      then show "x # replicate (k - 1) x = replicate k x" by (rule Cons_replicate_pred)
    qed
    have bio: "?l \<in> bio" using Some label_to_int_range by blast
    have vB: "?l = ''B'' \<Longrightarrow> v = 0" using Some by (simp add: label_to_int_def)
    have vI: "?l = ''I'' \<Longrightarrow> v = 1" using Some by (simp add: label_to_int_def)
    have vO: "?l = ''O'' \<Longrightarrow> v = 2" using Some by (simp add: label_to_int_def)
    show ?thesis using seg bio vB vI vO rep by auto
  qed
qed


text \<open>
  The first label of a word is appended before the length test, so it is there for every
  word whose first subword is kept, the word that crosses the limit included.
\<close>

lemma finalize_labels_nth:
  assumes "labs = pre @ v # b" "length pre < max_length - 2"
  shows "labels (finalize sv (ids, labs)) ! Suc (length pre) = v"
proof -
  have b: "labs ! length pre = v" using assms(1) by simp
  have "take (max_length - 2) labs ! length pre = labs ! length pre"
    using assms(2) by (rule nth_take)
  with b have a: "take (max_length - 2) labs ! length pre = v" by simp
  have c: "length pre < length (take (max_length - 2) labs)" using assms by simp
  have d: "length pre < length labs" using assms by simp
  from a b c d show ?thesis by (simp add: finalize_def Let_def nth_append)
qed

lemma first_label_of_kept_word:
  assumes run: "align_record sv (label_str, sentence) = Inr ex"
      and j: "j < length (py_split (py_lower sentence))"
      and k: "word_tokens sv (py_split (py_lower sentence) ! j) \<noteq> []"
      and p: "p = length (all_ids sv (take j (py_split (py_lower sentence))))"
      and kept: "p < max_length - 2"
  shows "label_to_int (py_split label_str ! j) = Some (labels ex ! Suc p)"
proof -
  let ?ws = "py_split (py_lower sentence)"
  let ?ls = "py_split label_str"
  let ?ps = "zip ?ws ?ls"
  let ?w = "?ws ! j"
  let ?l = "?ls ! j"
  from run have len: "length ?ls = length ?ws"
    by (auto simp: align_record_def align_lists_def split: if_splits)
  from run len obtain ids' labs' where
    st: "align_words sv ([], []) ?ps = Inr (ids', labs')" and ex: "ex = finalize sv (ids', labs')"
    by (auto simp: align_record_def align_lists_def split: sum.splits)
  have jp: "j < length ?ps" using j len by simp
  have nth: "?ps ! j = (?w, ?l)" using j len by simp
  have dec: "?ps = take j ?ps @ (?w, ?l) # drop (Suc j) ?ps"
    using id_take_nth_drop [OF jp] nth by simp
  have pre: "map fst (take j ?ps) = take j ?ws"
    using len by (simp add: take_map [symmetric])
  have st': "align_words sv ([], []) (take j ?ps @ (?w, ?l) # drop (Suc j) ?ps) = Inr (ids', labs')"
    using st dec by simp
  have fit': "length ([]::int list) + length (all_ids sv (map fst (take j ?ps))) \<le> max_length - 2"
    using kept p pre by simp
  from align_words_prefix [OF st' fit'] obtain labs2 where
    l2: "length labs2 = p"
    and r2: "align_words sv (all_ids sv (take j ?ws), labs2) ((?w, ?l) # drop (Suc j) ?ps) = Inr (ids', labs')"
    using pre p by auto
  show ?thesis
  proof (cases "label_to_int ?l")
    case None
    with r2 k show ?thesis by (simp add: align_word_KeyError)
  next
    case (Some v)
    have "\<exists>b. labs' = labs2 @ v # b"
    proof (cases "length (all_ids sv (take j ?ws)) + length (word_tokens sv ?w) > max_length - 2")
      case True
      from r2 have "labs' = labs2 @ [v]"
        by (simp add: align_word_Break [OF k Some True])
      then show ?thesis by simp
    next
      case False
      then have le: "length (all_ids sv (take j ?ws)) + length (word_tokens sv ?w) \<le> max_length - 2"
        by simp
      let ?seg = "v # replicate (length (word_tokens sv ?w) - 1) (if ?l = ''B'' then 1 else v)"
      from r2 have "align_words sv (all_ids sv (take j ?ws) @ word_ids sv ?w, labs2 @ ?seg)
          (drop (Suc j) ?ps) = Inr (ids', labs')"
        by (simp add: align_word_Next [OF k Some le])
      from align_words_extends [OF this] obtain b where "labs' = (labs2 @ ?seg) @ b" by auto
      then show ?thesis by simp
    qed
    then obtain b where b: "labs' = labs2 @ v # b" ..
    have "length labs2 < max_length - 2" using l2 kept by simp
    from finalize_labels_nth [OF b this, of sv ids'] have "labels ex ! Suc p = v"
      using l2 ex by simp
    with Some show ?thesis by simp
  qed
qed

text \<open>
  Claim C2, as the loop does it. Take a record that the aligner accepts and a word of it
  with \<open>k \<ge> 1\<close> subwords whose first subword is kept: \<open>p\<close> raw subwords precede it and
  \<open>p < max_length - 2\<close>. Then its label is one of B, I, O and the label id emitted for
  its first subword (it follows the begin marker and the \<open>p\<close> earlier ones) is the id of
  that original label; this holds for the word that crosses the limit too. If moreover
  \<open>k > 1\<close> and the whole word fits, \<open>p + k \<le> max_length - 2\<close>, the \<open>k\<close> label ids emitted
  for it are \<open>[B, I, \<dots>, I]\<close> for the label B and \<open>k\<close> copies of the label for I and O.
\<close>

theorem C2_continuation_labels:
  assumes run: "align_record sv (label_str, sentence) = Inr ex"
      and j: "j < length (py_split (py_lower sentence))"
      and k: "k = length (word_tokens sv (py_split (py_lower sentence) ! j))" "k \<ge> 1"
      and p: "p = length (all_ids sv (take j (py_split (py_lower sentence))))"
      and kept: "p < max_length - 2"
  shows "py_split label_str ! j \<in> bio
     \<and> label_to_int (py_split label_str ! j) = Some (labels ex ! Suc p)
     \<and> (k > 1 \<and> p + k \<le> max_length - 2 \<longrightarrow>
          (py_split label_str ! j = ''B'' \<longrightarrow>
             take k (drop (Suc p) (labels ex)) = 0 # replicate (k - 1) 1) \<and>
          (py_split label_str ! j = ''I'' \<longrightarrow>
             take k (drop (Suc p) (labels ex)) = replicate k 1) \<and>
          (py_split label_str ! j = ''O'' \<longrightarrow>
             take k (drop (Suc p) (labels ex)) = replicate k 2))"
proof -
  have ne: "word_tokens sv (py_split (py_lower sentence) ! j) \<noteq> []" using k by auto
  from first_label_of_kept_word [OF run j ne p kept]
  have first: "label_to_int (py_split label_str ! j) = Some (labels ex ! Suc p)" .
  then have bio: "py_split label_str ! j \<in> bio" using label_to_int_range by blast
  have "k > 1 \<and> p + k \<le> max_length - 2 \<longrightarrow>
          (py_split label_str ! j = ''B'' \<longrightarrow>
             take k (drop (Suc p) (labels ex)) = 0 # replicate (k - 1) 1) \<and>
          (py_split label_str ! j = ''I'' \<longrightarrow>
             take k (drop (Suc p) (labels ex)) = replicate k 1) \<and>
          (py_split label_str ! j = ''O'' \<longrightarrow>
             take k (drop (Suc p) (labels ex)) = replicate k 2)"
    using continuation_labels_of_fitting_word [OF run j k(1) _ p] by blast
  with bio first show ?thesis by blast
qed

theorem C2_continuation_labels_witness:
  "(\<exists>ex. align_record char_services (''B O'', ''Cats run'') = Inr ex
     \<and> (0::nat) < length (py_split (py_lower ''Cats run''))
     \<and> (4::nat) = length (word_tokens char_services (py_split (py_lower ''Cats run'') ! 0))
     \<and> (0::nat) = length (all_ids char_services (take 0 (py_split (py_lower ''Cats run''))))
     \<and> (0::nat) + 4 \<le> max_length - 2
     \<and> py_split ''B O'' ! 0 = ''B''
     \<and> labels ex ! Suc 0 = 0
     \<and> take 4 (drop (Suc 0) (labels ex)) = 0 # replicate (4 - 1) 1)
   \<and> (\<exists>ex. align_record char_services
          (concat (replicate 508 ''O '') @ ''B'', concat (replicate 508 ''a '') @ ''abc'') = Inr ex
     \<and> (508::nat) < length (py_split (py_lower (concat (replicate 508 ''a '') @ ''abc'')))
     \<and> (3::nat) = length (word_tokens char_services
          (py_split (py_lower (concat (replicate 508 ''a '') @ ''abc'')) ! 508))
     \<and> (508::nat) = length (all_ids char_services
          (take 508 (py_split (py_lower (concat (replicate 508 ''a '') @ ''abc'')))))
     \<and> (508::nat) < max_length - 2
     \<and> py_split (concat (replicate 508 ''O '') @ ''B'') ! 508 = ''B''
     \<and> labels ex ! Suc 508 = 0)"
proof -
  have ws: "py_split (py_lower ''Cats run'') = [''cats'', ''run'']" by code_simp
  have ls: "py_split ''B O'' = [''B'', ''O'']" by code_simp
  have "length (py_split ''B O'') = length (py_split (py_lower ''Cats run''))"
    by (simp add: ws ls)
  moreover have "set (py_split ''B O'') \<subseteq> bio" by (simp add: ls bio_def)
  ultimately obtain ex where run: "align_record char_services (''B O'', ''Cats run'') = Inr ex"
    using align_record_valid by blast
  have j: "(0::nat) < length (py_split (py_lower ''Cats run''))" by (simp add: ws)
  have k: "(4::nat) = length (word_tokens char_services (py_split (py_lower ''Cats run'') ! 0))"
    by (simp add: ws word_tokens_def char_services_def char_tokenize_def)
  have p: "(0::nat) = length (all_ids char_services (take 0 (py_split (py_lower ''Cats run''))))"
    by (simp add: all_ids_def)
  have kept: "(0::nat) < max_length - 2" by (simp add: max_length_def)
  have fit: "(0::nat) + 4 \<le> max_length - 2" by (simp add: max_length_def)
  have b: "py_split ''B O'' ! 0 = ''B''" by (simp add: ls)
  have lb: "label_to_int ''B'' = Some 0" by (simp add: label_to_int_def)
  from C2_continuation_labels [OF run j k _ p kept] b lb fit
  have c1: "labels ex ! Suc 0 = 0 \<and> take 4 (drop (Suc 0) (labels ex)) = 0 # replicate (4 - 1) 1"
    by simp
  let ?S = "concat (replicate 508 ''a '') @ ''abc''"
  let ?L = "concat (replicate 508 ''O '') @ ''B''"
  have sB: "py_split ''B'' = [''B'']" by code_simp
  have sabc: "py_split (py_lower ''abc'') = [''abc'']" by code_simp
  have ws2: "py_split (py_lower ?S) = replicate 508 ''a'' @ [''abc'']"
    by (simp add: py_lower_rep_a py_split_rep_a sabc)
  have ls2: "py_split ?L = replicate 508 ''O'' @ [''B'']"
    by (simp add: py_split_rep_O sB)
  have run2: "align_record char_services (?L, ?S) =
      Inr \<lparr> input_ids = 101 # replicate 508 1097 @ [1097, 1098, 102],
            attention_mask = replicate 512 1,
            labels = - 100 # replicate 508 2 @ [0, - 100] \<rparr>"
    by (rule align_record_508_abc [OF lb sB])
  have j2: "(508::nat) < length (py_split (py_lower ?S))" by (simp add: ws2)
  have k2: "(3::nat) = length (word_tokens char_services (py_split (py_lower ?S) ! 508))"
    by (simp add: ws2 nth_append word_tokens_abc)
  have p2: "(508::nat) = length (all_ids char_services (take 508 (py_split (py_lower ?S))))"
    by (simp add: ws2 all_ids_rep_a)
  have kept2: "(508::nat) < max_length - 2" by (simp add: max_length_def)
  have b2: "py_split ?L ! 508 = ''B''" by (simp add: ls2 nth_append)
  from C2_continuation_labels [OF run2 j2 k2 _ p2 kept2] b2 lb
  have c2: "labels \<lparr> input_ids = 101 # replicate 508 1097 @ [1097, 1098, 102],
            attention_mask = replicate 512 (1::int),
            labels = - 100 # replicate 508 2 @ [0, - 100] \<rparr> ! Suc 508 = 0"
    by simp
  from run j k p fit b c1 run2 j2 k2 p2 kept2 b2 c2 show ?thesis by blast
qed

text \<open>
  The claim as stated, for any word with more than one subword, fails for the word that
  crosses the limit: in the record of 508 one-subword words followed by \<open>abc\<close> (three
  subwords, label B), the only label emitted for \<open>abc\<close> is B; the end marker follows.
\<close>

theorem C2_counterexample:
  "align_record char_services
      (concat (replicate 508 ''O '') @ ''B'', concat (replicate 508 ''a '') @ ''abc'') =
    Inr \<lparr> input_ids = 101 # replicate 508 1097 @ [1097, 1098, 102],
          attention_mask = replicate 512 1,
          labels = - 100 # replicate 508 2 @ [0, - 100] \<rparr>
   \<and> length (word_tokens char_services ''abc'') = 3"
proof -
  have "py_split ''B'' = [''B'']" by (simp add: py_split_def is_space_def)
  moreover have "label_to_int ''B'' = Some 0" by (simp add: label_to_int_def)
  ultimately show ?thesis using align_record_508_abc [of "''B''" 0]
    by (simp add: word_tokens_abc)
qed



subsection \<open>Mismatched records\<close>

lemma align_file_ok:
  "\<forall>r \<in> set rs. \<exists>ex. align_record sv r = Inr ex \<Longrightarrow> \<exists>out'. align_file sv i out rs = Inr out'"
  by (induction rs arbitrary: i out) auto

lemma align_file_fail:
  "\<forall>r \<in> set before. \<exists>ex. align_record sv r = Inr ex \<Longrightarrow> align_record sv r = Inl e \<Longrightarrow>
   align_file sv i out (before @ r # after) = Inl e"
  by (induction before arbitrary: i out) auto

lemma align_files_fail:
  "\<forall>f \<in> set files_before. \<forall>r \<in> set f. \<exists>ex. align_record sv r = Inr ex \<Longrightarrow>
   (\<And>out'. align_file sv 0 out' f = Inl e) \<Longrightarrow>
   align_files sv out (files_before @ f # files_after) = Inl e"
proof (induction files_before arbitrary: out)
  case Nil
  then show ?case by simp
next
  case (Cons g gs)
  from Cons.prems(1) have "\<forall>r \<in> set g. \<exists>ex. align_record sv r = Inr ex" by simp
  from align_file_ok [OF this, of 0 out] obtain out' where "align_file sv 0 out g = Inr out'" ..
  moreover have "align_files sv out' (gs @ f # files_after) = Inl e"
    using Cons.IH [of out'] Cons.prems by simp
  ultimately show ?case by simp
qed

lemma align_record_mismatch:
  "length (py_split label_str) \<noteq> length (py_split (py_lower sentence)) \<Longrightarrow>
   align_record sv (label_str, sentence) =
     Inl (ValueError (mismatch_message (length (py_split label_str))
            (length (py_split (py_lower sentence)))))"
  by (simp add: align_record_def align_lists_def)

lemma mismatch_2_3: "mismatch_message 2 3 = ''Mismatch: 2 labels but 3 words''"
  by code_simp

lemma mismatch_2_3_Suc:
  "mismatch_message (Suc (Suc 0)) (Suc (Suc (Suc 0))) = ''Mismatch: 2 labels but 3 words''"
  using mismatch_2_3 by (simp add: numeral_2_eq_2 numeral_3_eq_3)


text \<open>
  Claim C3, as the aligner does it. A record whose label count differs from its word
  count ends the whole batch with a \<open>ValueError\<close>, once the records before it have been
  aligned; the message states the number of labels and the number of words, whatever
  the place of the record in its file and of the file in the batch. For 2 labels and 3
  words it reads \<open>Mismatch: 2 labels but 3 words\<close>.
\<close>

theorem C3_mismatch_error:
  assumes "length (py_split label_str) \<noteq> length (py_split (py_lower sentence))"
      and "\<forall>f \<in> set files_before. \<forall>r \<in> set f. \<exists>ex. align_record sv r = Inr ex"
      and "\<forall>r \<in> set before. \<exists>ex. align_record sv r = Inr ex"
  shows "lemmatize_tokenize_and_align_labels sv
           (files_before @ (before @ (label_str, sentence) # after) # files_after) =
         Inl (ValueError (mismatch_message (length (py_split label_str))
                (length (py_split (py_lower sentence)))))
       \<and> mismatch_message 2 3 = ''Mismatch: 2 labels but 3 words''"
proof -
  let ?e = "ValueError (mismatch_message (length (py_split label_str))
              (length (py_split (py_lower sentence))))"
  have "\<And>out'. align_file sv 0 out' (before @ (label_str, sentence) # after) = Inl ?e"
    using align_file_fail [OF assms(3) align_record_mismatch [OF assms(1)]] .
  from align_files_fail [OF assms(2) this]
  have "lemmatize_tokenize_and_align_labels sv
           (files_before @ (before @ (label_str, sentence) # after) # files_after) = Inl ?e"
    by (simp add: lemmatize_tokenize_and_align_labels_def)
  then show ?thesis using mismatch_2_3 by simp
qed


lemma align_record_ok_ok: "\<exists>ex. align_record char_services (''O'', ''ok'') = Inr ex"
proof -
  have "py_split ''O'' = [''O'']" "py_split (py_lower ''ok'') = [''ok'']" by code_simp+
  then show ?thesis using align_record_valid [of "''O''" "''ok''" char_services]
    by (auto simp: bio_def)
qed

lemma cats_run_fast:
  "py_split ''B O'' = [''B'', ''O'']" "py_split (py_lower ''Cats run fast'') = [''cats'', ''run'', ''fast'']"
  by code_simp+


theorem C3_mismatch_error_witness:
  "length (py_split ''B O'') \<noteq> length (py_split (py_lower ''Cats run fast''))
   \<and> (\<exists>ex. align_record char_services (''O'', ''ok'') = Inr ex)
   \<and> lemmatize_tokenize_and_align_labels char_services
        ([[(''O'', ''ok'')]] @ ([(''O'', ''ok'')] @ (''B O'', ''Cats run fast'') # []) # []) =
      Inl (ValueError ''Mismatch: 2 labels but 3 words'')"
proof -
  have a: "length (py_split ''B O'') \<noteq> length (py_split (py_lower ''Cats run fast''))"
    by (simp add: cats_run_fast)
  have b: "\<forall>f \<in> set [[(''O'', ''ok'')]]. \<forall>r \<in> set f. \<exists>ex. align_record char_services r = Inr ex"
    using align_record_ok_ok by simp
  have c: "\<forall>r \<in> set [(''O'', ''ok'')]. \<exists>ex. align_record char_services r = Inr ex"
    using align_record_ok_ok by simp
  from C3_mismatch_error [OF a b c, of "[]" "[]"] have
    "lemmatize_tokenize_and_align_labels char_services
        ([[(''O'', ''ok'')]] @ ([(''O'', ''ok'')] @ (''B O'', ''Cats run fast'') # []) # []) =
      Inl (ValueError ''Mismatch: 2 labels but 3 words'')"
    by (simp add: cats_run_fast mismatch_2_3_Suc)
  with a align_record_ok_ok show ?thesis by blast
qed


text \<open>
  The message does not identify the record: the offending record raises the same error
  at index 0 of its file and at index 1.
\<close>

theorem C3_counterexample:
  "lemmatize_tokenize_and_align_labels char_services [[(''B O'', ''Cats run fast'')]] =
     Inl (ValueError ''Mismatch: 2 labels but 3 words'')
   \<and> lemmatize_tokenize_and_align_labels char_services
       [[(''O'', ''ok''), (''B O'', ''Cats run fast'')]] =
     Inl (ValueError ''Mismatch: 2 labels but 3 words'')"
proof -
  have bad: "align_record char_services (''B O'', ''Cats run fast'') =
      Inl (ValueError ''Mismatch: 2 labels but 3 words'')"
    using align_record_mismatch [of "''B O''" "''Cats run fast''" char_services]
    by (simp add: cats_run_fast mismatch_2_3_Suc)
  obtain ex where ok: "align_record char_services (''O'', ''ok'') = Inr ex"
    using align_record_ok_ok by blast
  show ?thesis
    by (simp add: lemmatize_tokenize_and_align_labels_def bad ok)
qed

subsection \<open>The label lookup\<close>














section \<open>Properties of the metrics\<close>

lemma total_samples_cells:
  "total_samples c = c 0 0 + c 0 1 + c 0 2 + c 1 0 + c 1 1 + c 1 2 + c 2 0 + c 2 1 + c 2 2"
  by (simp add: total_samples_def upt_rec numeral_eq_Suc)

lemma correct_predictions_cells: "correct_predictions c = c 0 0 + c 1 1 + c 2 2"
  by (simp add: correct_predictions_def upt_rec numeral_eq_Suc)

lemma correct_le_total: "correct_predictions c \<le> total_samples c"
  by (simp add: total_samples_cells correct_predictions_cells)


text \<open>
  Claim C5. The accuracy is returned, never raised: it is the trace of the confusion
  matrix divided by the number of counted pairs (the sum of all nine cells), it lies
  between 0 and 1, and it is 0 when nothing was counted. With the diagonal 10, 5, 20 and
  40 counted pairs it is 35/40 = 0.875. Division is over the reals.
\<close>

theorem C5_accuracy:
  "\<exists>a. accuracy c = Inr a
     \<and> a = (if total_samples c = 0 then 0
            else real (c 0 0 + c 1 1 + c 2 2) / real (total_samples c))
     \<and> total_samples c = (\<Sum>i<3. \<Sum>j<3. c i j)
     \<and> 0 \<le> a \<and> a \<le> 1
     \<and> (c 0 0 = 10 \<and> c 1 1 = 5 \<and> c 2 2 = 20 \<and> total_samples c = 40 \<longrightarrow> a = 0.875)"
proof -
  let ?a = "if total_samples c = 0 then 0
            else real (c 0 0 + c 1 1 + c 2 2) / real (total_samples c)"
  have acc: "accuracy c = Inr ?a"
    by (simp add: accuracy_def truediv_def correct_predictions_cells)
  have sum: "total_samples c = (\<Sum>i<3. \<Sum>j<3. c i j)"
    by (simp add: total_samples_cells lessThan_nat_numeral lessThan_Suc)
  have lo: "0 \<le> ?a" by simp
  have "c 0 0 + c 1 1 + c 2 2 \<le> total_samples c"
    using correct_le_total [of c] by (simp add: correct_predictions_cells)
  then have "real (c 0 0 + c 1 1 + c 2 2) \<le> real (total_samples c)"
    by (rule iffD2 [OF of_nat_le_iff])
  then have hi: "?a \<le> 1" by (simp add: divide_le_eq_1)
  have sc: "c 0 0 = 10 \<and> c 1 1 = 5 \<and> c 2 2 = 20 \<and> total_samples c = 40 \<longrightarrow> ?a = 0.875"
    by simp
  show ?thesis
    by (intro exI [of _ ?a] conjI) (rule acc refl sum lo hi sc)+
qed

theorem C5_accuracy_witness:
  "scenario_confusion 0 0 = 10 \<and> scenario_confusion 1 1 = 5 \<and> scenario_confusion 2 2 = 20
   \<and> total_samples scenario_confusion = 40
   \<and> accuracy scenario_confusion = Inr 0.875"
proof -
  have d: "scenario_confusion 0 0 = 10 \<and> scenario_confusion 1 1 = 5 \<and> scenario_confusion 2 2 = 20"
    by (simp add: scenario_confusion_def)
  have t: "total_samples scenario_confusion = 40"
    by (simp add: total_samples_cells scenario_confusion_def)
  from C5_accuracy [of scenario_confusion] d t show ?thesis by auto
qed



lemma range_3: "[0..<3] = [0, 1, 2]"
  by (simp add: upt_rec numeral_eq_Suc)

lemma lessThan_3: "{..<3::nat} = {0, 1, 2}"
  by auto

lemma column_sum_split:
  assumes "k < 3"
  shows "sum_list (map (\<lambda>i. c i k) [0..<3]) = c k k + (\<Sum>i \<in> {..<3} - {k}. c i k)"
proof -
  from assms have "k = 0 \<or> k = 1 \<or> k = 2" by auto
  then show ?thesis
    unfolding range_3 lessThan_3 by (elim disjE) (simp_all add: insert_Diff_if ac_simps)
qed

lemma row_sum_split:
  "k < 3 \<Longrightarrow> sum_list (map (\<lambda>j. c k j) [0..<3]) = c k k + (\<Sum>j \<in> {..<3} - {k}. c k j)"
  using column_sum_split [of k "\<lambda>i j. c j i"] by simp


text \<open>
  Claim C6. For each of the three classes the metrics are returned, never raised. With TP
  the diagonal cell of the class, FP the rest of its column and FN the rest of its row:
  precision is TP/(TP+FP), and 0 when TP+FP is 0; recall is TP/(TP+FN), and 0 when TP+FN
  is 0; F1 is the harmonic mean 2 * precision * recall / (precision + recall), and 0 when
  precision + recall is 0. Division is over the reals.
\<close>

theorem C6_class_metrics:
  assumes "class_idx < 3"
  shows "\<exists>m tp fp fn.
       tp = c class_idx class_idx
     \<and> fp = (\<Sum>i \<in> {..<3} - {class_idx}. c i class_idx)
     \<and> fn = (\<Sum>j \<in> {..<3} - {class_idx}. c class_idx j)
     \<and> class_metrics c class_idx = Inr m
     \<and> precision m = (if tp + fp = 0 then 0 else real tp / real (tp + fp))
     \<and> recall m = (if tp + fn = 0 then 0 else real tp / real (tp + fn))
     \<and> f1 m = (if precision m + recall m = 0 then 0
               else 2 * precision m * recall m / (precision m + recall m))"
proof -
  define tp where "tp = c class_idx class_idx"
  define fp where "fp = (\<Sum>i \<in> {..<3} - {class_idx}. c i class_idx)"
  define fn where "fn = (\<Sum>j \<in> {..<3} - {class_idx}. c class_idx j)"
  define p where "p = (if tp + fp = 0 then 0 else real tp / real (tp + fp))"
  define r where "r = (if tp + fn = 0 then 0 else real tp / real (tp + fn))"
  define f where "f = (if p + r = 0 then 0 else 2 * p * r / (p + r))"
  have col: "int (sum_list (map (\<lambda>i. c i class_idx) [0..<3])) - int tp = int fp"
    unfolding tp_def fp_def column_sum_split [OF assms(1)] by simp
  have row: "int (sum_list (map (\<lambda>j. c class_idx j) [0..<3])) - int tp = int fn"
    unfolding tp_def fn_def row_sum_split [OF assms(1)] by simp
  have p0: "0 \<le> p" and r0: "0 \<le> r" by (simp_all add: p_def r_def)
  have pe: "(if int tp + int fp > 0
             then truediv (real_of_int (int tp)) (real_of_int (int tp + int fp))
             else Inr 0) = Inr p"
    by (auto simp: truediv_def p_def)
  have re: "(if int tp + int fn > 0
             then truediv (real_of_int (int tp)) (real_of_int (int tp + int fn))
             else Inr 0) = Inr r"
    by (auto simp: truediv_def r_def)
  have fe: "(if p + r > 0 then truediv (2 * p * r) (p + r) else Inr 0) = Inr f"
    using p0 r0 by (auto simp: truediv_def f_def)
  have "class_metrics c class_idx =
      (case (if int tp + int fp > 0
             then truediv (real_of_int (int tp)) (real_of_int (int tp + int fp))
             else Inr 0) of
         Inl e \<Rightarrow> Inl e
       | Inr p \<Rightarrow>
          (case (if int tp + int fn > 0
                 then truediv (real_of_int (int tp)) (real_of_int (int tp + int fn))
                 else Inr 0) of
             Inl e \<Rightarrow> Inl e
           | Inr r \<Rightarrow>
              (case (if p + r > 0 then truediv (2 * p * r) (p + r) else Inr 0) of
                 Inl e \<Rightarrow> Inl e
               | Inr f \<Rightarrow> Inr \<lparr> precision = p, recall = r, f1 = f \<rparr>)))"
    unfolding class_metrics_def Let_def tp_def [symmetric] col row ..
  then have cm: "class_metrics c class_idx = Inr \<lparr> precision = p, recall = r, f1 = f \<rparr>"
    by (simp only: pe re fe sum.case)
  let ?m = "\<lparr> precision = p, recall = r, f1 = f \<rparr>"
  have pm: "precision ?m = (if tp + fp = 0 then 0 else real tp / real (tp + fp))"
    by (simp add: p_def)
  have rm: "recall ?m = (if tp + fn = 0 then 0 else real tp / real (tp + fn))"
    by (simp add: r_def)
  have fm: "f1 ?m = (if precision ?m + recall ?m = 0 then 0
               else 2 * precision ?m * recall ?m / (precision ?m + recall ?m))"
    by (simp add: f_def)
  show ?thesis
    by (rule exI [of _ ?m], rule exI [of _ tp], rule exI [of _ fp], rule exI [of _ fn])
       (intro conjI, (rule tp_def fp_def fn_def cm pm rm fm)+)
qed

theorem C6_class_metrics_witness:
  "(0::nat) < 3 \<and> class_metrics scenario_confusion 0 = Inr \<lparr> precision = 1, recall = 2 / 3, f1 = 4 / 5 \<rparr>"
proof -
  have s: "scenario_confusion 0 0 = 10"
          "(\<Sum>i \<in> {..<3} - {0::nat}. scenario_confusion i 0) = 0"
          "(\<Sum>j \<in> {..<3} - {0::nat}. scenario_confusion 0 j) = 5"
    unfolding lessThan_3 by (simp_all add: scenario_confusion_def insert_Diff_if)
  have "(0::nat) < 3" by simp
  from C6_class_metrics [OF this, of scenario_confusion] obtain m tp fp fn where
    v: "tp = 10" "fp = 0" "fn = 5" and
    m: "class_metrics scenario_confusion 0 = Inr m"
       "precision m = (if tp + fp = 0 then 0 else real tp / real (tp + fp))"
       "recall m = (if tp + fn = 0 then 0 else real tp / real (tp + fn))"
       "f1 m = (if precision m + recall m = 0 then 0
               else 2 * precision m * recall m / (precision m + recall m))"
    unfolding s by blast
  have pm: "precision m = 1" using m(2) unfolding v by simp
  have rm: "recall m = 2 / 3" using m(3) unfolding v by simp
  have "f1 m = (if (1::real) + 2 / 3 = 0 then 0 else 2 * 1 * (2 / 3) / (1 + 2 / 3))"
    using m(4) unfolding pm rm .
  then have fm: "f1 m = 4 / 5" by simp
  from m(1) pm rm fm show ?thesis by (cases m) simp
qed

section \<open>Properties of the training loop\<close>

subsection \<open>Checkpoints\<close>

lemma epoch_step_other_rank:
  "world_rank \<noteq> 0 \<Longrightarrow> batch_losses obs \<noteq> [] \<Longrightarrow>
   \<exists>l. fdiv_len (foldl fadd (Finite 0) (batch_losses obs)) (length (batch_losses obs)) = Inr l \<and>
       epoch_step config world_rank epoch obs =
         Inr \<lparr> loss = l, val_accuracy = None, train_accuracy = None, checkpoint = None \<rparr>"
  by (simp add: epoch_step_def fdiv_len_def Let_def)

lemma creates_checkpoint_epoch_step:
  "creates_checkpoint (epoch_step config world_rank epoch obs) \<longleftrightarrow>
     world_rank = 0 \<and> checkpoint_freq config \<noteq> 0 \<and> int epoch mod checkpoint_freq config = 0 \<and>
     batch_losses obs \<noteq> []"
  by (auto simp: creates_checkpoint_def epoch_step_def fdiv_len_def Let_def split: sum.splits if_splits)

lemma filter_upt_rank_0:
  "length (filter (\<lambda>rank. P rank \<and> rank = 0) [m..<n]) \<le> 1"
proof -
  have "filter (\<lambda>rank. P rank \<and> rank = 0) [m..<n] = filter P (filter (\<lambda>rank. rank = 0) [m..<n])"
    by (simp add: conj_commute)
  moreover have "length (filter (\<lambda>rank. rank = (0::nat)) [m..<n]) \<le> 1"
    by (induction n) auto
  moreover have "length (filter P (filter (\<lambda>rank. rank = 0) [m..<n])) \<le>
      length (filter (\<lambda>rank. rank = (0::nat)) [m..<n])"
    by (rule length_filter_le)
  ultimately show ?thesis by simp
qed


text \<open>
  Claim C7. In one epoch, over all workers of a trial, at most one checkpoint is created;
  a worker that creates one has rank 0 and the epoch is on the cadence
  (\<open>epoch mod checkpoint_freq = 0\<close>); every other worker that has trained on at least
  one batch reports its loss and nothing else. On a cadence epoch the worker of rank 0
  does create the checkpoint \<open>epoch + 1\<close>.
\<close>

theorem C7_single_checkpoint:
  "length (filter creates_checkpoint (world_epoch config num_workers epoch obs)) \<le> 1
   \<and> (\<forall>rank < num_workers.
         creates_checkpoint (world_epoch config num_workers epoch obs ! rank) \<longrightarrow>
           rank = 0 \<and> checkpoint_freq config \<noteq> 0 \<and> int epoch mod checkpoint_freq config = 0)
   \<and> (\<forall>rank < num_workers. rank \<noteq> 0 \<and> batch_losses (obs rank) \<noteq> [] \<longrightarrow>
         (\<exists>l. world_epoch config num_workers epoch obs ! rank =
               Inr \<lparr> loss = l, val_accuracy = None, train_accuracy = None, checkpoint = None \<rparr>))
   \<and> (0 < num_workers \<and> checkpoint_freq config \<noteq> 0 \<and> int epoch mod checkpoint_freq config = 0
        \<and> batch_losses (obs 0) \<noteq> [] \<longrightarrow>
         (\<exists>r. world_epoch config num_workers epoch obs ! 0 = Inr r \<and> checkpoint r = Some (epoch + 1)))"
proof -
  have "filter creates_checkpoint (world_epoch config num_workers epoch obs) =
      map (\<lambda>rank. epoch_step config (int rank) epoch (obs rank))
        (filter (\<lambda>rank. (checkpoint_freq config \<noteq> 0 \<and> int epoch mod checkpoint_freq config = 0 \<and>
            batch_losses (obs rank) \<noteq> []) \<and> rank = 0) [0..<num_workers])"
    by (simp add: world_epoch_def filter_map comp_def creates_checkpoint_epoch_step conj_commute
        conj_left_commute)
  then have a: "length (filter creates_checkpoint (world_epoch config num_workers epoch obs)) \<le> 1"
    using filter_upt_rank_0 [of "\<lambda>rank. checkpoint_freq config \<noteq> 0 \<and>
        int epoch mod checkpoint_freq config = 0 \<and> batch_losses (obs rank) \<noteq> []" 0 num_workers]
    by (simp add: conj_assoc)
  have b: "\<forall>rank < num_workers.
         creates_checkpoint (world_epoch config num_workers epoch obs ! rank) \<longrightarrow>
           rank = 0 \<and> checkpoint_freq config \<noteq> 0 \<and> int epoch mod checkpoint_freq config = 0"
    by (simp add: world_epoch_def creates_checkpoint_epoch_step)
  have c: "\<forall>rank < num_workers. rank \<noteq> 0 \<and> batch_losses (obs rank) \<noteq> [] \<longrightarrow>
         (\<exists>l. world_epoch config num_workers epoch obs ! rank =
               Inr \<lparr> loss = l, val_accuracy = None, train_accuracy = None, checkpoint = None \<rparr>)"
  proof (intro allI impI)
    fix rank assume r: "rank < num_workers" "rank \<noteq> 0 \<and> batch_losses (obs rank) \<noteq> []"
    then have "int rank \<noteq> 0" by simp
    from epoch_step_other_rank [OF this, of "obs rank" config epoch] r
    show "\<exists>l. world_epoch config num_workers epoch obs ! rank =
               Inr \<lparr> loss = l, val_accuracy = None, train_accuracy = None, checkpoint = None \<rparr>"
      by (auto simp: world_epoch_def)
  qed
  have d: "0 < num_workers \<and> checkpoint_freq config \<noteq> 0 \<and> int epoch mod checkpoint_freq config = 0
        \<and> batch_losses (obs 0) \<noteq> [] \<longrightarrow>
         (\<exists>r. world_epoch config num_workers epoch obs ! 0 = Inr r \<and> checkpoint r = Some (epoch + 1))"
    by (simp add: world_epoch_def epoch_step_def fdiv_len_def Let_def)
  from a b c d show ?thesis by blast
qed


theorem C7_single_checkpoint_witness:
  "(1::nat) < 2 \<and> (1::nat) \<noteq> 0 \<and> batch_losses (steady_obs 1) \<noteq> []
   \<and> world_epoch scenario_config 2 0 steady_obs ! 1 =
       Inr \<lparr> loss = Finite 2, val_accuracy = None, train_accuracy = None, checkpoint = None \<rparr>
   \<and> (0::nat) < 2 \<and> checkpoint_freq scenario_config \<noteq> 0
   \<and> int 0 mod checkpoint_freq scenario_config = 0 \<and> batch_losses (steady_obs 0) \<noteq> []
   \<and> (\<exists>r. world_epoch scenario_config 2 0 steady_obs ! 0 = Inr r \<and> checkpoint r = Some 1)
   \<and> creates_checkpoint (world_epoch scenario_config 2 0 steady_obs ! 0)
   \<and> length (filter creates_checkpoint (world_epoch scenario_config 2 0 steady_obs)) \<le> 1"
proof -
  have two: "[0..<2] = [0, Suc 0]" by (simp add: numeral_2_eq_2)
  show ?thesis
    using C7_single_checkpoint [of scenario_config 2 0 steady_obs]
    by (simp add: world_epoch_def two epoch_step_def fdiv_len_def Let_def steady_obs_def
        scenario_config_def creates_checkpoint_def)
qed


subsection \<open>Which parameters are trained\<close>

lemma all_trainable_optimizer_params:
  "\<forall>p \<in> set (parameters m). requires_grad p \<Longrightarrow> optimizer_params m = parameters m"
  by (simp add: optimizer_params_def)

lemma frozen_encoder_unchanged:
  "distilbert (optimizer_step upd (freeze_cell m)) = distilbert (freeze_cell m)"
  by (simp add: optimizer_step_def freeze_cell_def step_param_def comp_def)


text \<open>
  Claim C8. In the training loop the base encoder of the loaded model is frozen and only
  the classification head is trained. The loop does not do this: the worker loads its
  own model, whose parameters all have \<^verbatim>\<open>requires_grad\<close> set, and nothing in the loop
  clears the flag, so the optimizer receives every parameter and one step moves an
  encoder weight. The freeze cell, had it been applied to that model, would have kept
  the encoder unchanged.
\<close>

theorem C8_encoder_is_trained:
  "optimizer_params loaded_model = parameters loaded_model
   \<and> distilbert (optimizer_step (\<lambda>p. weight p + 1) loaded_model) \<noteq> distilbert loaded_model
   \<and> distilbert (optimizer_step (\<lambda>p. weight p + 1) (freeze_cell loaded_model)) =
       distilbert (freeze_cell loaded_model)"
  by (simp add: optimizer_params_def parameters_def loaded_model_def optimizer_step_def
      step_param_def freeze_cell_def)

subsection \<open>Non-finite losses\<close>











end
